theory Spec2Isabelle
  imports Complex_Main "HOL-Library.Char_ord"
begin

section \<open>Exceptions and tensor primitives\<close>

text \<open>
  The notebooks are Python over TensorFlow/Keras and NumPy. Tensors are nested lists
  (outermost axis first); an exception is a value of type \<open>error\<close> returned on the
  left of a sum.
\<close>

datatype error =
  UnboundLocalError | InvalidArgumentError | KeyError | IndexError | ValueError | TypeError

definition ebind :: "error + 'a \<Rightarrow> ('a \<Rightarrow> error + 'b) \<Rightarrow> error + 'b" where
  "ebind m f = (case m of Inl e \<Rightarrow> Inl e | Inr v \<Rightarrow> f v)"

fun collect :: "(error + 'a) list \<Rightarrow> error + 'a list" where
  "collect [] = Inr []"
| "collect (m # ms) = ebind m (\<lambda>v. ebind (collect ms) (\<lambda>vs. Inr (v # vs)))"

text \<open>
  One axis of TensorFlow's broadcasting of a binary operation: equal sizes are paired,
  a size-1 axis is stretched, anything else is rejected.
\<close>

definition broadcast :: "('a \<Rightarrow> 'b \<Rightarrow> error + 'c) \<Rightarrow> 'a list \<Rightarrow> 'b list \<Rightarrow> error + 'c list" where
  "broadcast f xs ys =
     (if length xs = length ys then collect (map2 f xs ys)
      else if length xs = 1 then collect (map (f (hd xs)) ys)
      else if length ys = 1 then collect (map (\<lambda>x. f x (hd ys)) xs)
      else Inl InvalidArgumentError)"

definition tf_minimum :: "int list list list \<Rightarrow> int list list list \<Rightarrow> error + int list list list" where
  "tf_minimum = broadcast (broadcast (broadcast (\<lambda>a b. Inr (min a b))))"

definition tf_add :: "('a::plus) list list list \<Rightarrow> 'a list list list \<Rightarrow> error + 'a list list list" where
  "tf_add = broadcast (broadcast (broadcast (\<lambda>a b. Inr (a + b))))"

text \<open>\<open>tf.cast(_, dtype="int32")\<close> of a boolean.\<close>

definition cast_int32 :: "bool \<Rightarrow> int" where
  "cast_int32 v = (if v then 1 else 0)"

text \<open>\<open>mask[:, tf.newaxis, :]\<close>: shape (B, L) becomes (B, 1, L).\<close>

definition newaxis1 :: "'a list list \<Rightarrow> 'a list list list" where
  "newaxis1 m = map (\<lambda>r. [r]) m"

text \<open>\<open>tf.range(n)\<close>.\<close>

definition tf_range :: "nat \<Rightarrow> int list" where
  "tf_range n = map int [0..<n]"

text \<open>\<open>tf.shape(inputs)[0]\<close>, \<open>[1]\<close> and \<open>[-1]\<close> of a batch of sequences.\<close>

definition shape0 :: "'a list list \<Rightarrow> nat" where
  "shape0 inputs = length inputs"

definition shape1 :: "'a list list \<Rightarrow> nat" where
  "shape1 inputs = (case inputs of [] \<Rightarrow> 0 | r # _ \<Rightarrow> length r)"

text \<open>\<open>tf.tile\<close> of a rank-3 tensor; the multiples must have one entry per axis.\<close>

definition tile_axis :: "nat \<Rightarrow> 'a list \<Rightarrow> 'a list" where
  "tile_axis n xs = concat (replicate n xs)"

fun tf_tile :: "'a list list list \<Rightarrow> nat list \<Rightarrow> error + 'a list list list" where
  "tf_tile t [a, b, c] = Inr (tile_axis a (map (\<lambda>m. tile_axis b (map (tile_axis c) m)) t))"
| "tf_tile t _ = Inl InvalidArgumentError"

section \<open>Translation notebook: PositionalEmbedding\<close>

text \<open>
  A Keras \<open>Embedding\<close> layer is its weight matrix, one row of \<open>embed_dim\<close> entries per
  index: \<open>vocab_size\<close> rows for the tokens, \<open>sequence_length\<close> rows for the positions.
  Looking up an index outside the table is rejected, as the CPU kernel does. In the sum,
  the positions (L, D) are aligned with the trailing axes of the tokens (B, L, D), that is,
  they get a leading axis of size 1. \<open>compute_mask\<close> ignores its \<open>mask\<close> argument.
\<close>

record 'a PositionalEmbedding =
  token_embeddings :: "'a list list"
  position_embeddings :: "'a list list"

definition embedding_lookup :: "'a list list \<Rightarrow> int \<Rightarrow> error + 'a list" where
  "embedding_lookup W t =
     (if 0 \<le> t \<and> t < int (length W) then Inr (W ! nat t) else Inl InvalidArgumentError)"

definition PositionalEmbedding_call ::
  "('a::plus) PositionalEmbedding \<Rightarrow> int list list \<Rightarrow> error + 'a list list list" where
  "PositionalEmbedding_call self inputs =
     (let length' = shape1 inputs;
          positions = tf_range length'
      in ebind (collect (map (\<lambda>row. collect (map (embedding_lookup (token_embeddings self)) row)) inputs))
           (\<lambda>embedded_tokens.
         ebind (collect (map (embedding_lookup (position_embeddings self)) positions))
           (\<lambda>embedded_positions.
         tf_add embedded_tokens [embedded_positions])))"

definition compute_mask :: "int list list \<Rightarrow> bool list list" where
  "compute_mask inputs = map (map (\<lambda>t. t \<noteq> 0)) inputs"

section \<open>Translation notebook: the decoder's causal mask\<close>

text \<open>
  \<open>i\<close> is the column of the positions (shape (L, 1)) and \<open>j\<close> their row (shape (L)), so
  \<open>i >= j\<close> broadcasts to the (L, L) table of all comparisons; the reshape puts one
  batch axis in front and \<open>tf.tile\<close> repeats the table \<open>batch_size\<close> times.
\<close>

definition get_causal_attention_mask :: "'a list list \<Rightarrow> error + int list list list" where
  "get_causal_attention_mask inputs =
     (let batch_size = shape0 inputs;
          sequence_length = shape1 inputs;
          i = map (\<lambda>v. [v]) (tf_range sequence_length);
          j = tf_range sequence_length;
          mask = map (\<lambda>r. concat (map (\<lambda>iv. map (\<lambda>jv. cast_int32 (iv \<ge> jv)) j) r)) i;
          mask = [mask];
          mult = [batch_size] @ [1, 1]
      in tf_tile mask mult)"

text \<open>The lower-triangular matrix of the specification: entry (i, j) is 1 iff j \<le> i.\<close>

definition lower_triangular :: "nat \<Rightarrow> int list list" where
  "lower_triangular L = map (\<lambda>i. map (\<lambda>j. if j \<le> i then 1 else 0) [0..<L]) [0..<L]"

section \<open>Attention calls and Python locals\<close>

text \<open>
  \<open>layers.MultiHeadAttention\<close>, \<open>LayerNormalization\<close>, \<open>Dense\<close> and \<open>Dropout\<close> are
  the framework's: each is a function taken as a parameter. What the notebooks own is which
  tensors and which \<open>attention_mask\<close> they hand to an attention layer, so a forward pass
  returns its value (or the exception it raised) together with the attention calls it made,
  in order. \<open>att_mask = None\<close> means that no \<open>attention_mask\<close> argument was passed.
\<close>

type_synonym 'a tensor3 = "'a list list list"

type_synonym 'a attention_layer =
  "'a tensor3 \<Rightarrow> 'a tensor3 \<Rightarrow> 'a tensor3 \<Rightarrow> int tensor3 option \<Rightarrow> 'a tensor3"

record 'a att_call =
  callee :: string
  att_query :: "'a tensor3"
  att_value :: "'a tensor3"
  att_key :: "'a tensor3"
  att_mask :: "int tensor3 option"

type_synonym ('a, 'r) traced = "(error + 'r) \<times> 'a att_call list"

definition ret :: "'r \<Rightarrow> ('a, 'r) traced" where
  "ret v = (Inr v, [])"

definition lift :: "error + 'r \<Rightarrow> ('a, 'r) traced" where
  "lift m = (m, [])"

definition bnd :: "('a, 'r) traced \<Rightarrow> ('r \<Rightarrow> ('a, 's) traced) \<Rightarrow> ('a, 's) traced" where
  "bnd m f =
     (case fst m of
        Inl e \<Rightarrow> (Inl e, snd m)
      | Inr v \<Rightarrow> (fst (f v), snd m @ snd (f v)))"

definition invoke ::
  "string \<Rightarrow> 'a attention_layer \<Rightarrow> 'a tensor3 \<Rightarrow> 'a tensor3 \<Rightarrow> 'a tensor3 \<Rightarrow> int tensor3 option
     \<Rightarrow> ('a, 'a tensor3) traced" where
  "invoke name layer q v k m =
     (Inr (layer q v k m),
      [\<lparr>callee = name, att_query = q, att_value = v, att_key = k, att_mask = m\<rparr>])"

text \<open>
  A local variable that is assigned on some paths only is an option; reading it while it
  is unassigned raises \<open>UnboundLocalError\<close>.
\<close>

definition read_local :: "'r option \<Rightarrow> ('a, 'r) traced" where
  "read_local x = (case x of None \<Rightarrow> (Inl UnboundLocalError, []) | Some v \<Rightarrow> (Inr v, []))"

text \<open>
  How the attention layer reads entry (b, i, j) of the mask it is given: a mask of shape
  (B, 1, S) is stretched over the queries, and no mask leaves every key visible.
\<close>

definition mask_entry :: "int tensor3 option \<Rightarrow> nat \<Rightarrow> nat \<Rightarrow> nat \<Rightarrow> int" where
  "mask_entry m b i j =
     (case m of
        None \<Rightarrow> 1
      | Some t \<Rightarrow> (if length (t ! b) = 1 then t ! b ! 0 ! j else t ! b ! i ! j))"

section \<open>Translation notebook: TransformerEncoder and TransformerDecoder\<close>

record 'a TransformerEncoder =
  attention :: "'a attention_layer"
  dense_proj :: "'a tensor3 \<Rightarrow> 'a tensor3"
  layernorm_1 :: "'a tensor3 \<Rightarrow> 'a tensor3"
  layernorm_2 :: "'a tensor3 \<Rightarrow> 'a tensor3"

definition TransformerEncoder_call ::
  "('a::plus) TransformerEncoder \<Rightarrow> 'a tensor3 \<Rightarrow> bool list list option \<Rightarrow> ('a, 'a tensor3) traced" where
  "TransformerEncoder_call self inputs mask' =
     (let padding_mask =
            (case mask' of None \<Rightarrow> None
             | Some m \<Rightarrow> Some (map (map (map cast_int32)) (newaxis1 m)))
      in bnd (read_local padding_mask) (\<lambda>padding_mask.
         bnd (invoke ''attention'' (attention self) inputs inputs inputs (Some padding_mask))
           (\<lambda>attention_output.
         bnd (lift (tf_add inputs attention_output)) (\<lambda>sum_1.
         let proj_input = TransformerEncoder.layernorm_1 self sum_1;
             proj_output = TransformerEncoder.dense_proj self proj_input
         in bnd (lift (tf_add proj_input proj_output)) (\<lambda>sum_2.
            ret (TransformerEncoder.layernorm_2 self sum_2))))))"

record 'a TransformerDecoder =
  attention_1 :: "'a attention_layer"
  attention_2 :: "'a attention_layer"
  dense_proj :: "'a tensor3 \<Rightarrow> 'a tensor3"
  layernorm_1 :: "'a tensor3 \<Rightarrow> 'a tensor3"
  layernorm_2 :: "'a tensor3 \<Rightarrow> 'a tensor3"
  layernorm_3 :: "'a tensor3 \<Rightarrow> 'a tensor3"

text \<open>
  The \<open>if mask is not None\<close> block of \<open>TransformerDecoder.call\<close>: the value of the local
  \<open>padding_mask\<close> after it (\<open>None\<close>: still unassigned).
\<close>

definition decoder_padding_mask ::
  "int tensor3 \<Rightarrow> bool list list option \<Rightarrow> error + int tensor3 option" where
  "decoder_padding_mask causal_mask mask' =
     (case mask' of
        None \<Rightarrow> Inr None
      | Some m \<Rightarrow>
          (let padding_mask = map (map (map cast_int32)) (newaxis1 m)
           in ebind (tf_minimum padding_mask causal_mask) (\<lambda>padding_mask. Inr (Some padding_mask))))"

definition TransformerDecoder_call ::
  "('a::plus) TransformerDecoder \<Rightarrow> 'a tensor3 \<Rightarrow> 'a tensor3 \<Rightarrow> bool list list option
     \<Rightarrow> ('a, 'a tensor3) traced" where
  "TransformerDecoder_call self inputs encoder_outputs mask' =
     bnd (lift (get_causal_attention_mask inputs)) (\<lambda>causal_mask.
     bnd (lift (decoder_padding_mask causal_mask mask')) (\<lambda>padding_mask.
     bnd (invoke ''attention_1'' (attention_1 self) inputs inputs inputs (Some causal_mask))
       (\<lambda>attention_output_1.
     bnd (lift (tf_add inputs attention_output_1)) (\<lambda>sum_1.
     let out_1 = TransformerDecoder.layernorm_1 self sum_1
     in bnd (read_local padding_mask) (\<lambda>padding_mask.
        bnd (invoke ''attention_2'' (attention_2 self) out_1 encoder_outputs encoder_outputs
               (Some padding_mask))
          (\<lambda>attention_output_2.
        bnd (lift (tf_add out_1 attention_output_2)) (\<lambda>sum_2.
        let out_2 = TransformerDecoder.layernorm_2 self sum_2;
            proj_output = TransformerDecoder.dense_proj self out_2
        in bnd (lift (tf_add out_2 proj_output)) (\<lambda>sum_3.
           ret (layernorm_3 self sum_3)))))))))"

section \<open>NER notebook: TransformerBlock and CustomNonPaddingTokenLoss\<close>

record 'a TransformerBlock =
  att :: "'a attention_layer"
  ffn :: "'a tensor3 \<Rightarrow> 'a tensor3"
  layernorm1 :: "'a tensor3 \<Rightarrow> 'a tensor3"
  layernorm2 :: "'a tensor3 \<Rightarrow> 'a tensor3"
  dropout1 :: "'a tensor3 \<Rightarrow> bool \<Rightarrow> 'a tensor3"
  dropout2 :: "'a tensor3 \<Rightarrow> bool \<Rightarrow> 'a tensor3"

text \<open>
  \<open>self.att(inputs, inputs)\<close> passes the query and the value only: the key defaults to
  the value and there is no \<open>attention_mask\<close>.
\<close>

definition TransformerBlock_call ::
  "('a::plus) TransformerBlock \<Rightarrow> 'a tensor3 \<Rightarrow> bool \<Rightarrow> ('a, 'a tensor3) traced" where
  "TransformerBlock_call self inputs training =
     bnd (invoke ''att'' (att self) inputs inputs inputs None) (\<lambda>attn_output.
     let attn_output = dropout1 self attn_output training
     in bnd (lift (tf_add inputs attn_output)) (\<lambda>sum_1.
        let out1 = layernorm1 self sum_1;
            ffn_output = ffn self out1;
            ffn_output = dropout2 self ffn_output training
        in bnd (lift (tf_add out1 ffn_output)) (\<lambda>sum_2.
           ret (layernorm2 self sum_2))))"











section \<open>Translation notebook: decode_sequence\<close>

text \<open>
  The two \<open>TextVectorization\<close> layers, the trained model and the vocabulary are the
  notebook's globals; they are the fields of \<open>translator\<close>.
\<close>

record 'p translator =
  eng_vectorization :: "string list \<Rightarrow> int list list"
  spa_vectorization :: "string list \<Rightarrow> int list list"
  transformer :: "int list list \<Rightarrow> int list list \<Rightarrow> 'p list list list"
  spa_vocab :: "string list"

text \<open>A Python \<open>dict\<close> built from a sequence of pairs: a later pair overwrites.\<close>

definition dict_of :: "('k \<times> 'v) list \<Rightarrow> ('k \<rightharpoonup> 'v)" where
  "dict_of ps = foldl (\<lambda>m (k, v). m(k \<mapsto> v)) Map.empty ps"

definition getitem :: "('k \<rightharpoonup> 'v) \<Rightarrow> 'k \<Rightarrow> error + 'v" where
  "getitem d k = (case d k of None \<Rightarrow> Inl KeyError | Some v \<Rightarrow> Inr v)"

text \<open>\<open>argmax\<close> of a vector: the first index that holds the maximum; none if it is empty.\<close>

definition np_argmax :: "('p::linorder) list \<Rightarrow> error + nat" where
  "np_argmax xs =
     (if xs = [] then Inl ValueError
      else Inr (length (takeWhile (\<lambda>v. v \<noteq> Max (set xs)) xs)))"

definition spa_index_lookup :: "'p translator \<Rightarrow> (nat \<rightharpoonup> string)" where
  "spa_index_lookup env = dict_of (zip [0..<length (spa_vocab env)] (spa_vocab env))"

definition max_decoded_sentence_length :: nat where
  "max_decoded_sentence_length = 20"

text \<open>\<open>predictions[0, i, :]\<close>.\<close>

definition slice_0_i :: "'p list list list \<Rightarrow> nat \<Rightarrow> error + 'p list" where
  "slice_0_i predictions i =
     (if 0 < length predictions \<and> i < length (predictions ! 0)
      then Inr (predictions ! 0 ! i) else Inl InvalidArgumentError)"

text \<open>The loop body up to the lookup of the sampled token.\<close>

definition sample_token ::
  "('p::linorder) translator \<Rightarrow> int list list \<Rightarrow> nat \<Rightarrow> string \<Rightarrow> error + string" where
  "sample_token env tokenized_input_sentence i decoded_sentence =
     (let tokenized_target_sentence = map butlast (spa_vectorization env [decoded_sentence]);
          predictions = transformer env tokenized_input_sentence tokenized_target_sentence
      in ebind (slice_0_i predictions i) (\<lambda>row.
         ebind (np_argmax row) (\<lambda>sampled_token_index.
         getitem (spa_index_lookup env) sampled_token_index)))"

text \<open>
  The \<open>for i in range(max_decoded_sentence_length)\<close> loop over the remaining values of
  \<open>i\<close>. Besides the source's result (the decoded sentence, or the exception raised) it
  returns one entry per loop body entered: the token sampled there, or the exception.
\<close>

fun decode_loop ::
  "('p::linorder) translator \<Rightarrow> int list list \<Rightarrow> nat list \<Rightarrow> string \<Rightarrow> (error + string) list
     \<Rightarrow> (error + string) \<times> (error + string) list" where
  "decode_loop env tis [] decoded_sentence steps = (Inr decoded_sentence, steps)"
| "decode_loop env tis (i # rest) decoded_sentence steps =
     (case sample_token env tis i decoded_sentence of
        Inl e \<Rightarrow> (Inl e, steps @ [Inl e])
      | Inr sampled_token \<Rightarrow>
          (let decoded_sentence = decoded_sentence @ '' '' @ sampled_token
           in if sampled_token = ''[end]''
              then (Inr decoded_sentence, steps @ [Inr sampled_token])
              else decode_loop env tis rest decoded_sentence (steps @ [Inr sampled_token])))"

definition decode_sequence ::
  "('p::linorder) translator \<Rightarrow> string \<Rightarrow> (error + string) \<times> (error + string) list" where
  "decode_sequence env input_sentence =
     (let tokenized_input_sentence = eng_vectorization env [input_sentence];
          decoded_sentence = ''[start]''
      in decode_loop env tokenized_input_sentence [0..<max_decoded_sentence_length]
           decoded_sentence [])"

section \<open>Addition notebook: CharacterTable\<close>

record 'c CharacterTable =
  chars :: "'c list"
  char_indices :: "'c \<rightharpoonup> nat"
  indices_char :: "nat \<rightharpoonup> 'c"

definition CharacterTable_init :: "('c::linorder) list \<Rightarrow> 'c CharacterTable" where
  "CharacterTable_init cs =
     (let chars = sorted_list_of_set (set cs)
      in \<lparr>chars = chars,
          char_indices = dict_of (map (\<lambda>(i, c). (c, i)) (enumerate 0 chars)),
          indices_char = dict_of (map (\<lambda>(i, c). (i, c)) (enumerate 0 chars))\<rparr>)"

text \<open>A two-dimensional NumPy array: its shape and its rows.\<close>

record 'a ndarray =
  nrows :: nat
  ncols :: nat
  rows :: "'a list list"

definition np_zeros :: "nat \<Rightarrow> nat \<Rightarrow> real ndarray" where
  "np_zeros r c = \<lparr>nrows = r, ncols = c, rows = replicate r (replicate c 0)\<rparr>"

text \<open>\<open>x[i, j] = v\<close> with indices that are not negative.\<close>

definition setitem :: "'a ndarray \<Rightarrow> nat \<Rightarrow> nat \<Rightarrow> 'a \<Rightarrow> error + 'a ndarray" where
  "setitem x i j v =
     (if i < nrows x \<and> j < ncols x
      then Inr (x\<lparr>rows := (rows x)[i := (rows x ! i)[j := v]]\<rparr>)
      else Inl IndexError)"

fun encode_loop :: "'c CharacterTable \<Rightarrow> (nat \<times> 'c) list \<Rightarrow> real ndarray \<Rightarrow> error + real ndarray" where
  "encode_loop self [] x = Inr x"
| "encode_loop self ((i, c) # rest) x =
     ebind (getitem (char_indices self) c) (\<lambda>k.
     ebind (setitem x i k 1) (\<lambda>x. encode_loop self rest x))"

definition encode :: "'c CharacterTable \<Rightarrow> 'c list \<Rightarrow> nat \<Rightarrow> error + real ndarray" where
  "encode self C num_rows =
     (let x = np_zeros num_rows (length (chars self))
      in encode_loop self (enumerate 0 C) x)"

text \<open>
  \<open>x.argmax(axis=-1)\<close> is refused when the last axis is empty. Without the argmax the
  generator iterates over the rows of the array, which are not hashable keys.
\<close>

definition argmax_last_axis :: "('a::linorder) ndarray \<Rightarrow> error + nat list" where
  "argmax_last_axis x = (if ncols x = 0 then Inl ValueError else collect (map np_argmax (rows x)))"

definition decode :: "'c CharacterTable \<Rightarrow> real ndarray \<Rightarrow> bool \<Rightarrow> error + 'c list" where
  "decode self x calc_argmax =
     (if calc_argmax
      then ebind (argmax_last_axis x) (\<lambda>x. collect (map (getitem (indices_char self)) x))
      else if rows x = [] then Inr [] else Inl TypeError)"

section \<open>Properties\<close>

subsection \<open>Error propagation and broadcasting\<close>

lemma ebind_Inr: "ebind (Inr v) f = f v"
  by (simp add: ebind_def)

lemma collect_map_Inr:
  "(\<And>x. x \<in> set xs \<Longrightarrow> g x = Inr (h x)) \<Longrightarrow> collect (map g xs) = Inr (map h xs)"
  by (induction xs) (simp_all add: ebind_Inr)

lemma broadcast_same:
  assumes "length xs = length ys"
      and "\<And>x y. (x, y) \<in> set (zip xs ys) \<Longrightarrow> f x y = Inr (g x y)"
  shows "broadcast f xs ys = Inr (map2 g xs ys)"
proof -
  have "collect (map (\<lambda>(x, y). f x y) (zip xs ys)) = Inr (map (\<lambda>(x, y). g x y) (zip xs ys))"
    by (rule collect_map_Inr) (use assms(2) in auto)
  then show ?thesis using assms(1) by (simp add: broadcast_def)
qed

lemma broadcast_left1:
  assumes "\<And>y. y \<in> set ys \<Longrightarrow> f x y = Inr (g x y)"
  shows "broadcast f [x] ys = Inr (map (g x) ys)"
proof (cases "length ys = 1")
  case True
  then obtain y where ys: "ys = [y]" by (cases ys) auto
  then show ?thesis using assms by (simp add: broadcast_def ebind_Inr)
next
  case False
  then show ?thesis using collect_map_Inr[of ys "f x" "g x"] assms
    by (simp add: broadcast_def)
qed

lemma broadcast_right1:
  assumes "\<And>x. x \<in> set xs \<Longrightarrow> f x y = Inr (g x y)"
  shows "broadcast f xs [y] = Inr (map (\<lambda>x. g x y) xs)"
proof (cases "length xs = 1")
  case True
  then obtain x where xs: "xs = [x]" by (cases xs) auto
  then show ?thesis using assms by (simp add: broadcast_def ebind_Inr)
next
  case False
  then show ?thesis using collect_map_Inr[of xs "\<lambda>x. f x y" "\<lambda>x. g x y"] assms
    by (simp add: broadcast_def)
qed

lemma shape1_rect: "\<forall>r\<in>set inputs. length r = L \<Longrightarrow> inputs \<noteq> [] \<Longrightarrow> shape1 inputs = L"
  by (cases inputs) (simp_all add: shape1_def)

subsection \<open>The padding mask derived by PositionalEmbedding\<close>

text \<open>
  Claim C6. The mask that \<open>PositionalEmbedding.compute_mask\<close> derives from a batch of
  token ids has the shape of the batch, and its entry at (b, j) is true exactly when the
  token id at (b, j) is not 0, the padding id.
\<close>

theorem compute_mask_marks_nonzero_tokens:
  "length (compute_mask inputs) = length inputs \<and>
   (\<forall>b < length inputs. length (compute_mask inputs ! b) = length (inputs ! b) \<and>
      (\<forall>j < length (inputs ! b). compute_mask inputs ! b ! j = (inputs ! b ! j \<noteq> 0)))"
  by (simp add: compute_mask_def)

theorem compute_mask_marks_nonzero_tokens_witness:
  "compute_mask [[4, 9, 0, 0], [7, 0, 0, 0]] = [[True, True, False, False], [True, False, False, False]] \<and>
   compute_mask [[4, 9, 0, 0], [7, 0, 0, 0]] ! 1 ! 0 = ([[4, 9, 0, 0], [7, 0, 0, 0]] ! 1 ! 0 \<noteq> (0::int))"
  using compute_mask_marks_nonzero_tokens[of "[[4, 9, 0, 0], [7, 0, 0, 0]]"]
  by (simp add: compute_mask_def)

subsection \<open>The causal mask\<close>

lemma tile_axis_one: "tile_axis (Suc 0) xs = xs"
  by (simp add: tile_axis_def)

lemma tile_axis_singleton: "tile_axis n [x] = replicate n x"
  by (induction n) (simp_all add: tile_axis_def)

lemma causal_mask_value:
  "get_causal_attention_mask inputs
     = Inr (replicate (length inputs) (lower_triangular (shape1 inputs)))"
  by (simp add: get_causal_attention_mask_def Let_def shape0_def tf_range_def tile_axis_one
      tile_axis_singleton lower_triangular_def comp_def cast_int32_def map_idI)

lemma row_ones: "length (filter (\<lambda>v. v = (1::int)) (map (\<lambda>j. if j \<le> i then 1 else 0) [0..<n])) = min n (Suc i)"
  by (induction n) auto

lemma triangular_step: "k * (k + 1) div 2 + Suc k = Suc k * (Suc k + 1) div 2"
proof -
  have "Suc k * (Suc k + 1) = k * (k + 1) + 2 * Suc k" by simp
  then show ?thesis by (simp del: mult_Suc mult_Suc_right)
qed

lemma count_lower_triangular_upto:
  "k \<le> L \<Longrightarrow> length (filter (\<lambda>v. v = (1::int))
     (concat (map (\<lambda>i. map (\<lambda>j. if j \<le> i then 1 else 0) [0..<L]) [0..<k]))) = k * (k + 1) div 2"
proof (induction k)
  case 0
  then show ?case by simp
next
  case (Suc k)
  have row: "length (filter (\<lambda>v. v = (1::int)) (map (\<lambda>j. if j \<le> k then 1 else 0) [0..<L])) = Suc k"
    using row_ones[of k L] Suc.prems by simp
  have ih: "length (filter (\<lambda>v. v = (1::int))
     (concat (map (\<lambda>i. map (\<lambda>j. if j \<le> i then 1 else 0) [0..<L]) [0..<k]))) = k * (k + 1) div 2"
    using Suc by simp
  have "length (filter (\<lambda>v. v = (1::int))
     (concat (map (\<lambda>i. map (\<lambda>j. if j \<le> i then 1 else 0) [0..<L]) [0..<Suc k])))
     = k * (k + 1) div 2 + Suc k"
    using row ih by simp
  then show ?case by (simp only: triangular_step)
qed

lemma count_lower_triangular:
  "length (filter (\<lambda>v. v = (1::int)) (concat (lower_triangular L))) = L * (L + 1) div 2"
  using count_lower_triangular_upto[of L L] by (simp add: lower_triangular_def)

text \<open>
  Claim C2. For a batch of shape (B, L) with B \<ge> 1, \<open>get_causal_attention_mask\<close> returns B
  slices, each the (L, L) lower-triangular matrix with entry (i, j) = 1 iff j \<le> i, which
  holds exactly L (L + 1) / 2 ones. The slice is the same for every batch index and for
  every other batch of sequences of length L, whatever its size and its entries.
\<close>

theorem causal_mask_lower_triangular:
  fixes inputs :: "'a list list" and inputs' :: "'b list list"
  assumes shape: "\<forall>r\<in>set inputs. length r = L" and shape': "\<forall>r\<in>set inputs'. length r = L"
      and b: "b < length inputs" and b': "b' < length inputs'"
  shows "\<exists>M M'. get_causal_attention_mask inputs = Inr M \<and>
           get_causal_attention_mask inputs' = Inr M' \<and>
           length M = length inputs \<and> M ! b = lower_triangular L \<and> M' ! b' = M ! b \<and>
           length (M ! b) = L \<and>
           (\<forall>i<L. length (M ! b ! i) = L \<and>
              (\<forall>j<L. M ! b ! i ! j = (if j \<le> i then 1 else 0))) \<and>
           length (filter (\<lambda>v. v = 1) (concat (M ! b))) = L * (L + 1) div 2"
proof -
  from b have ne: "inputs \<noteq> []" by auto
  from b' have ne': "inputs' \<noteq> []" by auto
  have s: "shape1 inputs = L" using shape ne by (rule shape1_rect)
  have s': "shape1 inputs' = L" using shape' ne' by (rule shape1_rect)
  have entries: "\<forall>i<L. length (lower_triangular L ! i) = L \<and>
      (\<forall>j<L. lower_triangular L ! i ! j = (if j \<le> i then 1 else 0))"
    by (simp add: lower_triangular_def)
  show ?thesis
    using b b' entries
    by (simp add: causal_mask_value s s' count_lower_triangular) (simp add: lower_triangular_def)
qed


lemma lower_triangular_3: "lower_triangular 3 = [[1,0,0],[1,1,0],[1,1,1]]"
  by (simp add: lower_triangular_def upt_rec)

theorem causal_mask_lower_triangular_witness:
  "get_causal_attention_mask [[5, 3, 0], [7, 0, 0 :: int]]
     = Inr [[[1, 0, 0], [1, 1, 0], [1, 1, 1]], [[1, 0, 0], [1, 1, 0], [1, 1, 1]]] \<and>
   get_causal_attention_mask [[True, False, False]] = Inr [[[1, 0, 0], [1, 1, 0], [1, 1, 1]]] \<and>
   length (filter (\<lambda>v. v = 1) (concat [[1, 0, 0], [1, 1, 0], [1, 1, 1 :: int]])) = 3 * (3 + 1) div 2"
proof -
  have h1: "\<forall>r\<in>set [[5, 3, 0], [7, 0, 0 :: int]]. length r = 3" by simp
  have h2: "\<forall>r\<in>set [[True, False, False]]. length r = 3" by simp
  have h3: "1 < length [[5, 3, 0], [7, 0, 0 :: int]]" by simp
  have h4: "0 < length [[True, False, False]]" by simp
  from causal_mask_lower_triangular[OF h1 h2 h3 h4]
  show ?thesis
    by (simp add: causal_mask_value shape1_def lower_triangular_3)
qed

subsection \<open>The combined mask of the decoder\<close>

lemma lower_triangular_rows: "r \<in> set (lower_triangular L) \<Longrightarrow> length r = L"
  by (auto simp: lower_triangular_def)

lemma minimum_rows:
  assumes "length x = L"
  shows "broadcast (broadcast (\<lambda>a b. Inr (min a b))) [x] (lower_triangular L)
           = Inr (map (map2 min x) (lower_triangular L))"
proof (rule broadcast_left1)
  fix y assume "y \<in> set (lower_triangular L)"
  then have "length x = length y" using assms lower_triangular_rows by metis
  then show "broadcast (\<lambda>a b. Inr (min a b)) x y = Inr (map2 min x y)"
    by (rule broadcast_same) simp
qed

lemma combined_mask_value:
  fixes P :: "bool list list"
  assumes shape: "\<forall>r\<in>set P. length r = L"
  shows "tf_minimum (map (map (map cast_int32)) (newaxis1 P)) (replicate (length P) (lower_triangular L))
           = Inr (map (\<lambda>r. map (map2 min (map cast_int32 r)) (lower_triangular L)) P)"
proof -
  let ?pad = "map (map (map cast_int32)) (newaxis1 P)"
  let ?C = "replicate (length P) (lower_triangular L)"
  let ?g = "\<lambda>p c. map (map2 min (hd p)) c"
  have "broadcast (broadcast (broadcast (\<lambda>a b. Inr (min a b)))) ?pad ?C = Inr (map2 ?g ?pad ?C)"
  proof (rule broadcast_same)
    show "length ?pad = length ?C" by (simp add: newaxis1_def)
  next
    fix p c assume "(p, c) \<in> set (zip ?pad ?C)"
    then have "p \<in> set ?pad" and "c \<in> set ?C" by (auto dest: set_zip_leftD set_zip_rightD)
    then obtain r where r: "r \<in> set P" and p: "p = [map cast_int32 r]" and c: "c = lower_triangular L"
      by (auto simp: newaxis1_def)
    have "length (map cast_int32 r) = L" using shape r by simp
    then show "broadcast (broadcast (\<lambda>a b. Inr (min a b))) p c = Inr (?g p c)"
      unfolding p c by (simp add: minimum_rows)
  qed
  moreover have "map2 ?g ?pad ?C = map (\<lambda>r. map (map2 min (map cast_int32 r)) (lower_triangular L)) P"
    by (rule nth_equalityI) (simp_all add: newaxis1_def)
  ultimately show ?thesis by (simp add: tf_minimum_def)
qed

text \<open>
  Claim C1. For a decoder input of shape (B, L, _) and a padding mask P of shape (B, L),
  the mask that \<open>TransformerDecoder.call\<close> combines from the causal mask C and P has
  shape (B, L, L), and for every batch row b and positions i, j below L its entry is
  min (C[b,i,j], P[b,j]): 0 when j > i or P[b,j] = 0, and 1 otherwise. The witness is the
  case L = 4, P = [1,1,1,0] of the specification.
\<close>

theorem decoder_combined_mask:
  fixes inputs :: "'a list list" and P :: "bool list list"
  assumes shape: "\<forall>r\<in>set inputs. length r = L" and shapeP: "\<forall>r\<in>set P. length r = L"
      and batch: "length P = length inputs"
      and b: "b < length inputs" and i: "i < L" and j: "j < L"
  shows "\<exists>C eff. get_causal_attention_mask inputs = Inr C \<and>
           decoder_padding_mask C (Some P) = Inr (Some eff) \<and>
           length eff = length inputs \<and> length (eff ! b) = L \<and> length (eff ! b ! i) = L \<and>
           C ! b ! i ! j = (if j \<le> i then 1 else 0) \<and>
           eff ! b ! i ! j = min (C ! b ! i ! j) (cast_int32 (P ! b ! j)) \<and>
           eff ! b ! i ! j = (if i < j \<or> \<not> P ! b ! j then 0 else 1)"
proof -
  from b have ne: "inputs \<noteq> []" by auto
  have s: "shape1 inputs = L" using shape ne by (rule shape1_rect)
  let ?C = "replicate (length inputs) (lower_triangular L)"
  let ?eff = "map (\<lambda>r. map (map2 min (map cast_int32 r)) (lower_triangular L)) P"
  have C: "get_causal_attention_mask inputs = Inr ?C" by (simp add: causal_mask_value s)
  have "tf_minimum (map (map (map cast_int32)) (newaxis1 P)) ?C = Inr ?eff"
    using combined_mask_value[OF shapeP] batch by simp
  then have eff: "decoder_padding_mask ?C (Some P) = Inr (Some ?eff)"
    by (simp add: decoder_padding_mask_def ebind_Inr)
  have Pb: "length (P ! b) = L" using shapeP b batch by simp
  have lt: "lower_triangular L ! i ! j = (if j \<le> i then 1 else 0)" "length (lower_triangular L ! i) = L"
    "length (lower_triangular L) = L"
    using i j by (simp_all add: lower_triangular_def)
  have e: "?eff ! b ! i ! j = min (cast_int32 (P ! b ! j)) (lower_triangular L ! i ! j)"
    using b batch i j Pb lt by simp
  have "length ?eff = length inputs" using batch by simp
  moreover have "length (?eff ! b) = L" using b batch lt by simp
  moreover have "length (?eff ! b ! i) = L" using b batch i lt Pb by simp
  moreover have "?C ! b ! i ! j = (if j \<le> i then 1 else 0)" using b lt by simp
  moreover have "?eff ! b ! i ! j = min (?C ! b ! i ! j) (cast_int32 (P ! b ! j))"
    using e b by (simp add: min.commute)
  moreover have "?eff ! b ! i ! j = (if i < j \<or> \<not> P ! b ! j then 0 else 1)"
    using e lt by (auto simp: cast_int32_def)
  ultimately show ?thesis using C eff by blast
qed

theorem decoder_combined_mask_witness:
  "get_causal_attention_mask [[5, 8, 2, 0 :: int]]
     = Inr [[[1, 0, 0, 0], [1, 1, 0, 0], [1, 1, 1, 0], [1, 1, 1, 1]]] \<and>
   decoder_padding_mask [[[1, 0, 0, 0], [1, 1, 0, 0], [1, 1, 1, 0], [1, 1, 1, 1]]]
       (Some [[True, True, True, False]])
     = Inr (Some [[[1, 0, 0, 0], [1, 1, 0, 0], [1, 1, 1, 0], [1, 1, 1, 0]]])"
proof -
  have h1: "\<forall>r\<in>set [[5, 8, 2, 0 :: int]]. length r = 4" by simp
  have h2: "\<forall>r\<in>set [[True, True, True, False]]. length r = 4" by simp
  have h3: "length [[True, True, True, False]] = length [[5, 8, 2, 0 :: int]]" by simp
  have h4: "0 < length [[5, 8, 2, 0 :: int]]" by simp
  have h5: "(3::nat) < 4" by simp
  have lt4: "lower_triangular 4 = [[1, 0, 0, 0], [1, 1, 0, 0], [1, 1, 1, 0], [1, 1, 1, 1]]"
    by (simp add: lower_triangular_def upt_rec)
  have s4: "shape1 [[5, 8, 2, 0 :: int]] = 4" by (simp add: shape1_def)
  have c: "get_causal_attention_mask [[5, 8, 2, 0 :: int]]
     = Inr [[[1, 0, 0, 0], [1, 1, 0, 0], [1, 1, 1, 0], [1, 1, 1, 1]]]"
    by (simp add: causal_mask_value s4 lt4)
  have e: "decoder_padding_mask [[[1, 0, 0, 0], [1, 1, 0, 0], [1, 1, 1, 0], [1, 1, 1, 1]]]
       (Some [[True, True, True, False]])
     = Inr (Some [[[1, 0, 0, 0], [1, 1, 0, 0], [1, 1, 1, 0], [1, 1, 1, 0]]])"
    by (simp add: decoder_padding_mask_def tf_minimum_def broadcast_def newaxis1_def
        ebind_def cast_int32_def)
  from decoder_combined_mask[OF h1 h2 h3 h4 h5 h5] c e
  show ?thesis by simp
qed

subsection \<open>Forward passes and the attention calls they make\<close>

lemma bnd_lift_Inr: "bnd (lift (Inr v)) f = f v"
  by (simp add: bnd_def lift_def)

lemma bnd_lift_Inl: "bnd (lift (Inl e)) f = (Inl e, [])"
  by (simp add: bnd_def lift_def)

lemma snd_bnd_lift: "snd (bnd (lift m) f) = (case m of Inl e \<Rightarrow> [] | Inr v \<Rightarrow> snd (f v))"
  by (simp add: bnd_def lift_def split: sum.splits)

lemma bnd_invoke:
  "bnd (invoke name layer q v k m) f =
     (fst (f (layer q v k m)),
      \<lparr>callee = name, att_query = q, att_value = v, att_key = k, att_mask = m\<rparr> # snd (f (layer q v k m)))"
  by (simp add: bnd_def invoke_def)

lemma bnd_read_local_None: "bnd (read_local None) f = (Inl UnboundLocalError, [])"
  by (simp add: bnd_def read_local_def)

lemma bnd_read_local_Some: "bnd (read_local (Some v)) f = f v"
  by (simp add: bnd_def read_local_def)

lemma snd_ret: "snd (ret v) = []"
  by (simp add: ret_def)

lemma tf_add_same_shape:
  fixes x y :: "('a::plus) list list list"
  assumes "map (map length) x = map (map length) y"
  shows "tf_add x y = Inr (map2 (map2 (map2 (+))) x y)"
  unfolding tf_add_def
proof (rule broadcast_same)
  show "length x = length y" using assms by (metis length_map)
next
  fix p c assume pc: "(p, c) \<in> set (zip x y)"
  then obtain n where n: "n < length x" "n < length y" "p = x ! n" "c = y ! n"
    by (auto simp: in_set_zip)
  have "map (map length) x ! n = map (map length) y ! n" using assms by simp
  then have len: "map length p = map length c" using n by simp
  show "broadcast (broadcast (\<lambda>a b. Inr (a + b))) p c = Inr (map2 (map2 (+)) p c)"
  proof (rule broadcast_same)
    show "length p = length c" using len by (metis length_map)
  next
    fix a b assume "(a, b) \<in> set (zip p c)"
    then obtain k where k: "k < length p" "k < length c" "a = p ! k" "b = c ! k"
      by (auto simp: in_set_zip)
    have "map length p ! k = map length c ! k" using len by simp
    then have "length a = length b" using k by simp
    then show "broadcast (\<lambda>a b. Inr (a + b)) a b = Inr (map2 (+) a b)"
      by (rule broadcast_same) simp
  qed
qed

lemma encoder_log:
  "snd (TransformerEncoder_call self inputs (Some P)) =
     [\<lparr>callee = ''attention'', att_query = inputs, att_value = inputs, att_key = inputs,
       att_mask = Some (map (map (map cast_int32)) (newaxis1 P))\<rparr>]"
  by (simp add: TransformerEncoder_call_def Let_def bnd_read_local_Some bnd_invoke snd_bnd_lift
      snd_ret split: sum.splits)

lemma block_log:
  "snd (TransformerBlock_call self inputs training) =
     [\<lparr>callee = ''att'', att_query = inputs, att_value = inputs, att_key = inputs,
       att_mask = None\<rparr>]"
  by (simp add: TransformerBlock_call_def Let_def bnd_invoke snd_bnd_lift snd_ret split: sum.splits)

lemma decoder_call_None:
  assumes "get_causal_attention_mask inputs = Inr C"
  shows "TransformerDecoder_call self inputs encoder_outputs None =
     ((case tf_add inputs (attention_1 self inputs inputs inputs (Some C)) of
         Inl e \<Rightarrow> Inl e | Inr s \<Rightarrow> Inl UnboundLocalError),
      [\<lparr>callee = ''attention_1'', att_query = inputs, att_value = inputs, att_key = inputs,
        att_mask = Some C\<rparr>])"
  using assms
  by (simp add: TransformerDecoder_call_def bnd_lift_Inr decoder_padding_mask_def bnd_invoke
      Let_def bnd_read_local_None bnd_lift_Inl split: sum.splits)

lemma decoder_log_Some:
  assumes "get_causal_attention_mask inputs = Inr C"
      and "decoder_padding_mask C (Some P) = Inr (Some eff)"
  shows "snd (TransformerDecoder_call self inputs encoder_outputs (Some P)) =
     \<lparr>callee = ''attention_1'', att_query = inputs, att_value = inputs, att_key = inputs,
        att_mask = Some C\<rparr> #
     (case tf_add inputs (attention_1 self inputs inputs inputs (Some C)) of
        Inl e \<Rightarrow> []
      | Inr s \<Rightarrow> [\<lparr>callee = ''attention_2'',
                   att_query = TransformerDecoder.layernorm_1 self s,
                   att_value = encoder_outputs, att_key = encoder_outputs,
                   att_mask = Some eff\<rparr>])"
  using assms
  by (simp add: TransformerDecoder_call_def bnd_lift_Inr bnd_invoke
      Let_def bnd_read_local_Some bnd_lift_Inl snd_bnd_lift snd_ret split: sum.splits)

text \<open>
  Claim C9. With \<open>mask = None\<close>, \<open>TransformerEncoder.call\<close> raises \<open>UnboundLocalError\<close>
  before it calls its attention layer, and \<open>TransformerDecoder.call\<close> raises it after the
  self-attention call and before the cross-attention call (for a self-attention layer that
  returns a tensor of the shape of its query, as \<open>MultiHeadAttention\<close> does).
\<close>

theorem forward_pass_without_mask_is_unbound:
  fixes eself :: "('a::plus) TransformerEncoder" and dself :: "('b::plus) TransformerDecoder"
  assumes C: "get_causal_attention_mask inputs = Inr C"
      and shape: "map (map length) (attention_1 dself inputs inputs inputs (Some C))
                    = map (map length) inputs"
  shows "TransformerEncoder_call eself einputs None = (Inl UnboundLocalError, []) \<and>
         TransformerDecoder_call dself inputs encoder_outputs None =
           (Inl UnboundLocalError,
            [\<lparr>callee = ''attention_1'', att_query = inputs, att_value = inputs, att_key = inputs,
              att_mask = Some C\<rparr>])"
proof -
  have "TransformerEncoder_call eself einputs None = (Inl UnboundLocalError, [])"
    by (simp add: TransformerEncoder_call_def bnd_read_local_None)
  moreover have "tf_add inputs (attention_1 dself inputs inputs inputs (Some C))
      = Inr (map2 (map2 (map2 (+))) inputs (attention_1 dself inputs inputs inputs (Some C)))"
    using shape by (intro tf_add_same_shape) simp
  then have "TransformerDecoder_call dself inputs encoder_outputs None =
           (Inl UnboundLocalError,
            [\<lparr>callee = ''attention_1'', att_query = inputs, att_value = inputs, att_key = inputs,
              att_mask = Some C\<rparr>])"
    by (simp add: decoder_call_None[OF C])
  ultimately show ?thesis by simp
qed

theorem forward_pass_without_mask_is_unbound_witness:
  "TransformerEncoder_call
     \<lparr>attention = (\<lambda>q v k m. q), TransformerEncoder.dense_proj = (\<lambda>x. x),
      TransformerEncoder.layernorm_1 = (\<lambda>x. x), TransformerEncoder.layernorm_2 = (\<lambda>x. x)\<rparr>
     [[[1], [2 :: int]]] None = (Inl UnboundLocalError, []) \<and>
   TransformerDecoder_call
     \<lparr>attention_1 = (\<lambda>q v k m. q), attention_2 = (\<lambda>q v k m. q), dense_proj = (\<lambda>x. x),
      layernorm_1 = (\<lambda>x. x), layernorm_2 = (\<lambda>x. x), layernorm_3 = (\<lambda>x. x)\<rparr>
     [[[1], [2 :: int]]] [[[0], [0]]] None =
     (Inl UnboundLocalError,
      [\<lparr>callee = ''attention_1'', att_query = [[[1], [2]]], att_value = [[[1], [2]]],
        att_key = [[[1], [2]]], att_mask = Some [[[1, 0], [1, 1]]]\<rparr>])"
proof -
  have lt2: "lower_triangular 2 = [[1, 0], [1, 1]]"
    by (simp add: lower_triangular_def upt_rec)
  have s2: "shape1 [[[1], [2 :: int]]] = 2" by (simp add: shape1_def)
  have C: "get_causal_attention_mask [[[1], [2 :: int]]] = Inr [[[1, 0], [1, 1]]]"
    by (simp add: causal_mask_value s2 lt2)
  have shape: "map (map length)
      (attention_1 \<lparr>attention_1 = (\<lambda>q v k m. q), attention_2 = (\<lambda>q v k m. q), dense_proj = (\<lambda>x. x),
      layernorm_1 = (\<lambda>x. x), layernorm_2 = (\<lambda>x. x), layernorm_3 = (\<lambda>x. x)\<rparr>
        [[[1], [2 :: int]]] [[[1], [2]]] [[[1], [2]]] (Some [[[1, 0], [1, 1]]]))
      = map (map length) [[[1], [2 :: int]]]" by simp
  show ?thesis
    by (rule forward_pass_without_mask_is_unbound[OF C shape])
qed

text \<open>
  Claim C3, evaluated on the code. For a batch of one sequence of length 2 whose second
  position is padding, \<open>TransformerDecoder.call\<close> hands the causal mask alone to its
  self-attention layer, whatever the layers are: entry (0, 1, 1) of that mask is 1 although
  P[0,1] = 0. The combined mask, whose entry there is 0, is computed but goes to the
  cross-attention call only.
\<close>

theorem decoder_self_attention_sees_padding_key:
  "hd (snd (TransformerDecoder_call self [[[1], [2 :: int]]] encoder_outputs (Some [[True, False]])))
     = \<lparr>callee = ''attention_1'', att_query = [[[1], [2]]], att_value = [[[1], [2]]],
        att_key = [[[1], [2]]], att_mask = Some [[[1, 0], [1, 1]]]\<rparr> \<and>
   mask_entry (Some [[[1, 0], [1, 1]]]) 0 1 1 = 1 \<and>
   cast_int32 ([[True, False]] ! 0 ! 1) = 0 \<and>
   decoder_padding_mask [[[1, 0], [1, 1]]] (Some [[True, False]]) = Inr (Some [[[1, 0], [1, 0]]])"
proof -
  have lt2: "lower_triangular 2 = [[1, 0], [1, 1]]"
    by (simp add: lower_triangular_def upt_rec)
  have s2: "shape1 [[[1], [2 :: int]]] = 2" by (simp add: shape1_def)
  have C: "get_causal_attention_mask [[[1], [2 :: int]]] = Inr [[[1, 0], [1, 1]]]"
    by (simp add: causal_mask_value s2 lt2)
  have e: "decoder_padding_mask [[[1, 0], [1, 1]]] (Some [[True, False]]) = Inr (Some [[[1, 0], [1, 0]]])"
    by (simp add: decoder_padding_mask_def tf_minimum_def broadcast_def newaxis1_def
        ebind_def cast_int32_def)
  have m: "mask_entry (Some [[[1, 0], [1, 1]]]) 0 1 1 = 1" by (simp add: mask_entry_def)
  have h: "hd (snd (TransformerDecoder_call self [[[1], [2 :: int]]] encoder_outputs (Some [[True, False]])))
     = \<lparr>callee = ''attention_1'', att_query = [[[1], [2]]], att_value = [[[1], [2]]],
        att_key = [[[1], [2]]], att_mask = Some [[[1, 0], [1, 1]]]\<rparr>"
    by (simp add: decoder_log_Some[OF C e])
  have p: "cast_int32 ([[True, False]] ! 0 ! 1) = 0" by (simp add: cast_int32_def)
  from h m p e show ?thesis by (intro conjI)
qed

text \<open>
  Claim C5 as stated fails on the NER notebook's \<open>TransformerBlock.call\<close>: it passes no
  attention mask, so key position 1 stays visible although it is padding.
\<close>

theorem ner_block_attends_to_padding_key:
  "snd (TransformerBlock_call
          \<lparr>att = (\<lambda>q v k m. q), ffn = (\<lambda>x. x), layernorm1 = (\<lambda>x. x), layernorm2 = (\<lambda>x. x),
           dropout1 = (\<lambda>x training. x), dropout2 = (\<lambda>x training. x)\<rparr>
          [[[1], [0 :: int]]] False)
     = [\<lparr>callee = ''att'', att_query = [[[1], [0]]], att_value = [[[1], [0]]],
         att_key = [[[1], [0]]], att_mask = None\<rparr>] \<and>
   mask_entry None 0 0 1 \<noteq> cast_int32 ([[True, False]] ! 0 ! 1)"
  by (simp add: block_log mask_entry_def cast_int32_def)

text \<open>
  Claim C5, amended. In \<open>TransformerEncoder.call\<close> of the translation notebook with a
  padding mask P of shape (B, L), the one attention call is self-attention over the inputs
  and the mask applied to it is effective[b,i,j] = P[b,j], the same for every query
  position i, with no causal restriction. \<open>TransformerBlock.call\<close> of the NER notebook
  passes no attention mask: there every query attends to every key.
\<close>

theorem encoder_mask_is_padding_only:
  fixes self :: "('a::plus) TransformerEncoder" and nself :: "('b::plus) TransformerBlock"
  assumes shape: "\<forall>r\<in>set P. length r = L" and b: "b < length P" and i: "i < L" and j: "j < L"
  shows "\<exists>m. snd (TransformerEncoder_call self inputs (Some P))
               = [\<lparr>callee = ''attention'', att_query = inputs, att_value = inputs,
                   att_key = inputs, att_mask = Some m\<rparr>] \<and>
             mask_entry (Some m) b i j = cast_int32 (P ! b ! j) \<and>
             snd (TransformerBlock_call nself ninputs training)
               = [\<lparr>callee = ''att'', att_query = ninputs, att_value = ninputs,
                   att_key = ninputs, att_mask = None\<rparr>] \<and>
             mask_entry None b i j = 1"
proof -
  let ?m = "map (map (map cast_int32)) (newaxis1 P)"
  have "length (P ! b) = L" using shape b by simp
  then have "mask_entry (Some ?m) b i j = cast_int32 (P ! b ! j)"
    using b j by (simp add: mask_entry_def newaxis1_def)
  moreover have "mask_entry None b i j = 1" by (simp add: mask_entry_def)
  ultimately show ?thesis using encoder_log[of self inputs P] block_log[of nself ninputs training]
    by blast
qed

theorem encoder_mask_is_padding_only_witness:
  "snd (TransformerEncoder_call
          \<lparr>attention = (\<lambda>q v k m. q), TransformerEncoder.dense_proj = (\<lambda>x. x),
           TransformerEncoder.layernorm_1 = (\<lambda>x. x), TransformerEncoder.layernorm_2 = (\<lambda>x. x)\<rparr>
          [[[1], [2], [0 :: int]]] (Some [[True, True, False]]))
     = [\<lparr>callee = ''attention'', att_query = [[[1], [2], [0]]], att_value = [[[1], [2], [0]]],
         att_key = [[[1], [2], [0]]], att_mask = Some [[[1, 1, 0]]]\<rparr>] \<and>
   mask_entry (Some [[[1, 1, 0]]]) 0 0 1 = 1 \<and>
   mask_entry (Some [[[1, 1, 0]]]) 0 2 1 = 1 \<and>
   mask_entry (Some [[[1, 1, 0]]]) 0 1 2 = 0"
proof -
  have h1: "\<forall>r\<in>set [[True, True, False]]. length r = 3" by simp
  have h2: "0 < length [[True, True, False]]" by simp
  have h3: "(0::nat) < 3" by simp
  have h4: "(1::nat) < 3" by simp
  have a: "snd (TransformerEncoder_call
          \<lparr>attention = (\<lambda>q v k m. q), TransformerEncoder.dense_proj = (\<lambda>x. x),
           TransformerEncoder.layernorm_1 = (\<lambda>x. x), TransformerEncoder.layernorm_2 = (\<lambda>x. x)\<rparr>
          [[[1], [2], [0 :: int]]] (Some [[True, True, False]]))
     = [\<lparr>callee = ''attention'', att_query = [[[1], [2], [0]]], att_value = [[[1], [2], [0]]],
         att_key = [[[1], [2], [0]]], att_mask = Some [[[1, 1, 0]]]\<rparr>]"
    by (simp add: encoder_log newaxis1_def cast_int32_def)
  have m: "mask_entry (Some [[[1, 1, 0]]]) 0 0 1 = 1" "mask_entry (Some [[[1, 1, 0]]]) 0 2 1 = 1"
    "mask_entry (Some [[[1, 1, 0]]]) 0 1 2 = 0"
    by (simp_all add: mask_entry_def)
  from encoder_mask_is_padding_only[OF h1 h2 h3 h4,
      where self = "\<lparr>attention = (\<lambda>q v k m. q), TransformerEncoder.dense_proj = (\<lambda>x. x),
           TransformerEncoder.layernorm_1 = (\<lambda>x. x), TransformerEncoder.layernorm_2 = (\<lambda>x. x)\<rparr>"
      and inputs = "[[[1], [2], [0 :: int]]]"
      and nself = "\<lparr>att = (\<lambda>q v k m. q), ffn = (\<lambda>x. x), layernorm1 = (\<lambda>x. x), layernorm2 = (\<lambda>x. x),
           dropout1 = (\<lambda>x training. x), dropout2 = (\<lambda>x training. x)\<rparr>"
      and ninputs = "[[[1], [0 :: int]]]" and training = False]
    a m
  show ?thesis by (intro conjI)
qed

subsection \<open>The positional embedding\<close>

lemma token_lookup_value:
  assumes "\<forall>r\<in>set inputs. \<forall>t\<in>set r. 0 \<le> t \<and> t < int (length W)"
  shows "collect (map (\<lambda>row. collect (map (embedding_lookup W) row)) inputs)
           = Inr (map (map (\<lambda>t. W ! nat t)) inputs)"
proof (rule collect_map_Inr)
  fix row assume "row \<in> set inputs"
  then have "\<And>t. t \<in> set row \<Longrightarrow> embedding_lookup W t = Inr (W ! nat t)"
    using assms by (simp add: embedding_lookup_def)
  then show "collect (map (embedding_lookup W) row) = Inr (map (\<lambda>t. W ! nat t) row)"
    by (rule collect_map_Inr)
qed

lemma position_lookup_value:
  assumes "L \<le> length W"
  shows "collect (map (embedding_lookup W) (tf_range L)) = Inr (take L W)"
proof -
  have "collect (map (embedding_lookup W) (tf_range L)) = Inr (map (\<lambda>t. W ! nat t) (tf_range L))"
    by (rule collect_map_Inr) (use assms in \<open>auto simp: tf_range_def embedding_lookup_def\<close>)
  moreover have "map (\<lambda>t. W ! nat t) (tf_range L) = take L W"
    by (rule nth_equalityI) (use assms in \<open>simp_all add: tf_range_def\<close>)
  ultimately show ?thesis by simp
qed

lemma add_positions_value:
  fixes tok :: "('a::plus) list list list"
  assumes rows: "\<forall>x\<in>set tok. length x = length pos"
      and vecs: "\<forall>x\<in>set tok. \<forall>v\<in>set x. length v = D" and pvecs: "\<forall>v\<in>set pos. length v = D"
  shows "tf_add tok [pos] = Inr (map (\<lambda>x. map2 (map2 (+)) x pos) tok)"
  unfolding tf_add_def
proof (rule broadcast_right1)
  fix x assume x: "x \<in> set tok"
  show "broadcast (broadcast (\<lambda>a b. Inr (a + b))) x pos = Inr (map2 (map2 (+)) x pos)"
  proof (rule broadcast_same)
    show "length x = length pos" using rows x by simp
  next
    fix a b assume "(a, b) \<in> set (zip x pos)"
    then have "a \<in> set x" "b \<in> set pos" by (auto dest: set_zip_leftD set_zip_rightD)
    then have "length a = length b" using vecs pvecs x by simp
    then show "broadcast (\<lambda>a b. Inr (a + b)) a b = Inr (map2 (+) a b)"
      by (rule broadcast_same) simp
  qed
qed

lemma positional_embedding_value:
  fixes self :: "('a::plus) PositionalEmbedding"
  assumes tokD: "\<forall>r\<in>set (token_embeddings self). length r = D"
      and posD: "\<forall>r\<in>set (position_embeddings self). length r = D"
      and shape: "\<forall>r\<in>set inputs. length r = L"
      and ids: "\<forall>r\<in>set inputs. \<forall>t\<in>set r. 0 \<le> t \<and> t < int (length (token_embeddings self))"
      and len: "L \<le> length (position_embeddings self)"
      and ne: "inputs \<noteq> []"
  shows "PositionalEmbedding_call self inputs =
           Inr (map (\<lambda>row. map2 (map2 (+)) (map (\<lambda>t. token_embeddings self ! nat t) row)
                              (take L (position_embeddings self))) inputs)"
proof -
  let ?tok = "map (map (\<lambda>t. token_embeddings self ! nat t)) inputs"
  let ?pos = "take L (position_embeddings self)"
  have s: "shape1 inputs = L" using shape ne by (rule shape1_rect)
  have rows: "\<forall>x\<in>set ?tok. length x = length ?pos" using shape len by auto
  have vecs: "\<forall>x\<in>set ?tok. \<forall>v\<in>set x. length v = D"
  proof (intro ballI)
    fix x v assume "x \<in> set ?tok" "v \<in> set x"
    then obtain r t where "r \<in> set inputs" "t \<in> set r" "v = token_embeddings self ! nat t"
      by auto
    then show "length v = D" using ids tokD by (simp add: nat_less_iff)
  qed
  have pvecs: "\<forall>v\<in>set ?pos. length v = D" using posD by (auto dest: in_set_takeD)
  have "tf_add ?tok [?pos] = Inr (map (\<lambda>x. map2 (map2 (+)) x ?pos) ?tok)"
    using rows vecs pvecs by (rule add_positions_value)
  then show ?thesis
    by (simp add: PositionalEmbedding_call_def Let_def s token_lookup_value[OF ids]
        position_lookup_value[OF len] ebind_Inr comp_def)
qed

text \<open>
  Claim C4. Let the two embedding tables have rows of dimension D, and let inputs be a
  batch of token ids of shape (B, L), every id inside the token table and L within the
  position table. Then \<open>PositionalEmbedding.call\<close> returns a tensor of shape (B, L, D)
  whose entry at (b, p) is the token table's row for inputs[b,p] plus the position table's
  row p. So for another such batch of the same shape that carries the same token at
  (b, p), the entry at (b, p) is the same, whatever the tokens elsewhere.
\<close>

theorem positional_embedding_entries:
  fixes self :: "('a::plus) PositionalEmbedding"
  assumes tokD: "\<forall>r\<in>set (token_embeddings self). length r = D"
      and posD: "\<forall>r\<in>set (position_embeddings self). length r = D"
      and len: "L \<le> length (position_embeddings self)"
      and shape: "\<forall>r\<in>set inputs. length r = L"
      and ids: "\<forall>r\<in>set inputs. \<forall>t\<in>set r. 0 \<le> t \<and> t < int (length (token_embeddings self))"
      and shape': "length inputs' = length inputs" "\<forall>r\<in>set inputs'. length r = L"
      and ids': "\<forall>r\<in>set inputs'. \<forall>t\<in>set r. 0 \<le> t \<and> t < int (length (token_embeddings self))"
      and b: "b < length inputs" and p: "p < L"
  shows "\<exists>out out'. PositionalEmbedding_call self inputs = Inr out \<and>
           PositionalEmbedding_call self inputs' = Inr out' \<and>
           length out = length inputs \<and> length (out ! b) = L \<and> length (out ! b ! p) = D \<and>
           out ! b ! p = map2 (+) (token_embeddings self ! nat (inputs ! b ! p))
                                  (position_embeddings self ! p) \<and>
           (inputs' ! b ! p = inputs ! b ! p \<longrightarrow> out' ! b ! p = out ! b ! p)"
proof -
  let ?f = "\<lambda>row. map2 (map2 (+)) (map (\<lambda>t. token_embeddings self ! nat t) row)
                              (take L (position_embeddings self))"
  from b have ne: "inputs \<noteq> []" by auto
  from b shape'(1) have ne': "inputs' \<noteq> []" by auto
  have out: "PositionalEmbedding_call self inputs = Inr (map ?f inputs)"
    using tokD posD shape ids len ne by (rule positional_embedding_value)
  have out': "PositionalEmbedding_call self inputs' = Inr (map ?f inputs')"
    using tokD posD shape'(2) ids' len ne' by (rule positional_embedding_value)
  have lb: "length (inputs ! b) = L" "length (inputs' ! b) = L"
    using shape shape' b by simp_all
  have entry: "map ?f inputs ! b ! p = map2 (+) (token_embeddings self ! nat (inputs ! b ! p))
                                  (position_embeddings self ! p)"
    and entry': "map ?f inputs' ! b ! p = map2 (+) (token_embeddings self ! nat (inputs' ! b ! p))
                                  (position_embeddings self ! p)"
    using b p lb len shape'(1) by simp_all
  have tok: "length (token_embeddings self ! nat (inputs ! b ! p)) = D"
  proof -
    have "inputs ! b \<in> set inputs" using b by simp
    moreover have "inputs ! b ! p \<in> set (inputs ! b)" using lb p by simp
    ultimately have "0 \<le> inputs ! b ! p \<and> inputs ! b ! p < int (length (token_embeddings self))"
      using ids by blast
    then have "nat (inputs ! b ! p) < length (token_embeddings self)" by (simp add: nat_less_iff)
    then show ?thesis using tokD by simp
  qed
  have pos: "length (position_embeddings self ! p) = D" using posD p len by simp
  have "length (map ?f inputs) = length inputs" by simp
  moreover have "length (map ?f inputs ! b) = L" using b lb len by simp
  moreover have "length (map ?f inputs ! b ! p) = D" using entry tok pos by simp
  moreover have "inputs' ! b ! p = inputs ! b ! p \<longrightarrow> map ?f inputs' ! b ! p = map ?f inputs ! b ! p"
    using entry entry' by simp
  ultimately show ?thesis using out out' entry by blast
qed

theorem positional_embedding_entries_witness:
  "PositionalEmbedding_call
     \<lparr>token_embeddings = [[0, 0], [1, 10], [2, 20]], position_embeddings = [[100, 200], [300, 400]]\<rparr>
     [[1, 2], [2, 0]] = Inr [[[101, 210], [302, 420]], [[102, 220], [300, 400 :: int]]] \<and>
   PositionalEmbedding_call
     \<lparr>token_embeddings = [[0, 0], [1, 10], [2, 20]], position_embeddings = [[100, 200], [300, 400]]\<rparr>
     [[1, 0], [0, 0]] = Inr [[[101, 210], [300, 400]], [[100, 200], [300, 400 :: int]]]"
proof -
  let ?self = "\<lparr>token_embeddings = [[0, 0], [1, 10], [2, 20 :: int]],
                position_embeddings = [[100, 200], [300, 400]]\<rparr>"
  have h1: "\<forall>r\<in>set (token_embeddings ?self). length r = 2" by simp
  have h2: "\<forall>r\<in>set (position_embeddings ?self). length r = 2" by simp
  have h3: "2 \<le> length (position_embeddings ?self)" by simp
  have h4: "\<forall>r\<in>set [[1, 2], [2, 0 :: int]]. length r = 2" by simp
  have h5: "\<forall>r\<in>set [[1, 2], [2, 0 :: int]]. \<forall>t\<in>set r. 0 \<le> t \<and> t < int (length (token_embeddings ?self))"
    by simp
  have h6: "length [[1, 0], [0, 0 :: int]] = length [[1, 2], [2, 0 :: int]]" by simp
  have h7: "\<forall>r\<in>set [[1, 0], [0, 0 :: int]]. length r = 2" by simp
  have h8: "\<forall>r\<in>set [[1, 0], [0, 0 :: int]]. \<forall>t\<in>set r. 0 \<le> t \<and> t < int (length (token_embeddings ?self))"
    by simp
  have h9: "0 < length [[1, 2], [2, 0 :: int]]" by simp
  have h10: "(0::nat) < 2" by simp
  have a: "PositionalEmbedding_call ?self [[1, 2], [2, 0]]
             = Inr [[[101, 210], [302, 420]], [[102, 220], [300, 400 :: int]]]"
    by (simp add: positional_embedding_value[OF h1 h2 h4 h5 h3])
  have a': "PositionalEmbedding_call ?self [[1, 0], [0, 0]]
             = Inr [[[101, 210], [300, 400]], [[100, 200], [300, 400 :: int]]]"
    by (simp add: positional_embedding_value[OF h1 h2 h7 h8 h3])
  from positional_embedding_entries[OF h1 h2 h3 h4 h5 h6 h7 h8 h9 h10] a a'
  show ?thesis by (intro conjI)
qed

subsection \<open>The loss over non-padding tokens\<close>






















subsection \<open>The decoding loop\<close>

lemma decode_loop_trace:
  assumes "decode_loop env tis idxs s steps = (res, tr)"
  shows "\<exists>toks. length toks \<le> length idxs \<and>
           (\<forall>k<length toks. sample_token env tis (idxs ! k)
                (s @ concat (map (\<lambda>t. '' '' @ t) (take k toks))) = Inr (toks ! k)) \<and>
           (\<forall>k. Suc k < length toks \<longrightarrow> toks ! k \<noteq> ''[end]'') \<and>
           (case res of
              Inr out \<Rightarrow>
                tr = steps @ map Inr toks \<and> out = s @ concat (map (\<lambda>t. '' '' @ t) toks) \<and>
                (length toks < length idxs \<longrightarrow> toks \<noteq> [] \<and> last toks = ''[end]'')
            | Inl e \<Rightarrow>
                tr = steps @ map Inr toks @ [Inl e] \<and> length toks < length idxs \<and>
                (toks \<noteq> [] \<longrightarrow> last toks \<noteq> ''[end]'') \<and>
                sample_token env tis (idxs ! length toks)
                  (s @ concat (map (\<lambda>t. '' '' @ t) toks)) = Inl e)"
  using assms
proof (induction idxs arbitrary: s steps)
  case Nil
  then have "res = Inr s" "tr = steps" by auto
  then show ?case by (intro exI[of _ "[]"]) simp
next
  case (Cons i rest)
  show ?case
  proof (cases "sample_token env tis i s")
    case (Inl e)
    with Cons.prems have "res = Inl e" "tr = steps @ [Inl e]" by auto
    then show ?thesis using Inl by (intro exI[of _ "[]"]) simp
  next
    case (Inr tok)
    show ?thesis
    proof (cases "tok = ''[end]''")
      case True
      with Inr Cons.prems have r: "res = Inr (s @ '' '' @ tok)" "tr = steps @ [Inr tok]"
        by (simp_all add: Let_def)
      show ?thesis unfolding r sum.case using Inr True by (intro exI[of _ "[tok]"]) simp
    next
      case False
      let ?s = "s @ '' '' @ tok"
      from False Inr Cons.prems
      have "decode_loop env tis rest ?s (steps @ [Inr tok]) = (res, tr)"
        by (simp add: Let_def)
      from Cons.IH[OF this] obtain toks where
        len: "length toks \<le> length rest"
        and smp: "\<forall>k<length toks. sample_token env tis (rest ! k)
                (?s @ concat (map (\<lambda>t. '' '' @ t) (take k toks))) = Inr (toks ! k)"
        and before: "\<forall>k. Suc k < length toks \<longrightarrow> toks ! k \<noteq> ''[end]''"
        and fin: "(case res of
              Inr out \<Rightarrow>
                tr = (steps @ [Inr tok]) @ map Inr toks \<and>
                out = ?s @ concat (map (\<lambda>t. '' '' @ t) toks) \<and>
                (length toks < length rest \<longrightarrow> toks \<noteq> [] \<and> last toks = ''[end]'')
            | Inl e \<Rightarrow>
                tr = (steps @ [Inr tok]) @ map Inr toks @ [Inl e] \<and> length toks < length rest \<and>
                (toks \<noteq> [] \<longrightarrow> last toks \<noteq> ''[end]'') \<and>
                sample_token env tis (rest ! length toks)
                  (?s @ concat (map (\<lambda>t. '' '' @ t) toks)) = Inl e)"
        by blast
      let ?toks = "tok # toks"
      have 1: "length ?toks \<le> length (i # rest)" using len by simp
      have 2: "\<forall>k<length ?toks. sample_token env tis ((i # rest) ! k)
                (s @ concat (map (\<lambda>t. '' '' @ t) (take k ?toks))) = Inr (?toks ! k)"
      proof (intro allI impI)
        fix k assume k: "k < length ?toks"
        show "sample_token env tis ((i # rest) ! k)
                (s @ concat (map (\<lambda>t. '' '' @ t) (take k ?toks))) = Inr (?toks ! k)"
        proof (cases k)
          case 0
          then show ?thesis using Inr by simp
        next
          case (Suc k')
          then have "k' < length toks" using k by simp
          then have "sample_token env tis (rest ! k')
                (?s @ concat (map (\<lambda>t. '' '' @ t) (take k' toks))) = Inr (toks ! k')"
            using smp by blast
          then show ?thesis using Suc by simp
        qed
      qed
      have 3: "\<forall>k. Suc k < length ?toks \<longrightarrow> ?toks ! k \<noteq> ''[end]''"
      proof (intro allI impI)
        fix k assume k: "Suc k < length ?toks"
        show "?toks ! k \<noteq> ''[end]''"
        proof (cases k)
          case 0
          then show ?thesis using False by simp
        next
          case (Suc k')
          then have "Suc k' < length toks" using k by simp
          then show ?thesis using before Suc by simp
        qed
      qed
      have 4: "(case res of
              Inr out \<Rightarrow>
                tr = steps @ map Inr ?toks \<and> out = s @ concat (map (\<lambda>t. '' '' @ t) ?toks) \<and>
                (length ?toks < length (i # rest) \<longrightarrow> ?toks \<noteq> [] \<and> last ?toks = ''[end]'')
            | Inl e \<Rightarrow>
                tr = steps @ map Inr ?toks @ [Inl e] \<and> length ?toks < length (i # rest) \<and>
                (?toks \<noteq> [] \<longrightarrow> last ?toks \<noteq> ''[end]'') \<and>
                sample_token env tis ((i # rest) ! length ?toks)
                  (s @ concat (map (\<lambda>t. '' '' @ t) ?toks)) = Inl e)"
      proof (cases res)
        case (Inl e)
        then show ?thesis using fin False by simp
      next
        case (Inr out)
        then show ?thesis using fin by simp
      qed
      from 1 2 3 4 show ?thesis by (intro exI[of _ ?toks] conjI)
    qed
  qed
qed


text \<open>
  Claim C7. For every translator and input sentence, \<open>decode_sequence\<close> returns after
  entering the loop body at most 20 times. The tokens sampled are the results of the loop
  body at i = 0, 1, ... on "[start]" followed by the tokens sampled before; every body but
  the last one entered sampled a token other than "[end]". When a sentence is returned, it
  is "[start]" followed by the sampled tokens, and fewer than 20 bodies were entered only if
  the last token sampled is "[end]". When an exception is returned, it is the one that the
  loop body raised at the next i: the loop has no other way out.
\<close>

theorem decode_sequence_terminates_within_bound:
  "\<exists>res steps toks. decode_sequence env input_sentence = (res, steps) \<and>
     length steps \<le> 20 \<and>
     (\<forall>k<length toks.
        sample_token env (eng_vectorization env [input_sentence]) k
          (''[start]'' @ concat (map (\<lambda>t. '' '' @ t) (take k toks))) = Inr (toks ! k)) \<and>
     (\<forall>k. Suc k < length steps \<longrightarrow> steps ! k = Inr (toks ! k) \<and> toks ! k \<noteq> ''[end]'') \<and>
     (case res of
        Inr out \<Rightarrow>
          steps = map Inr toks \<and> out = ''[start]'' @ concat (map (\<lambda>t. '' '' @ t) toks) \<and>
          (length toks < 20 \<longrightarrow> toks \<noteq> [] \<and> last toks = ''[end]'')
      | Inl e \<Rightarrow>
          steps = map Inr toks @ [Inl e] \<and>
          sample_token env (eng_vectorization env [input_sentence]) (length toks)
            (''[start]'' @ concat (map (\<lambda>t. '' '' @ t) toks)) = Inl e)"
proof -
  let ?tis = "eng_vectorization env [input_sentence]"
  obtain res steps where d: "decode_sequence env input_sentence = (res, steps)"
    by (cases "decode_sequence env input_sentence")
  then have "decode_loop env ?tis [0..<20] ''[start]'' [] = (res, steps)"
    by (simp add: decode_sequence_def Let_def max_decoded_sentence_length_def)
  from decode_loop_trace[OF this] obtain toks where
    len: "length toks \<le> 20"
    and smp: "\<forall>k<length toks. sample_token env ?tis ([0..<20] ! k)
                (''[start]'' @ concat (map (\<lambda>t. '' '' @ t) (take k toks))) = Inr (toks ! k)"
    and before: "\<forall>k. Suc k < length toks \<longrightarrow> toks ! k \<noteq> ''[end]''"
    and fin: "(case res of
              Inr out \<Rightarrow>
                steps = [] @ map Inr toks \<and> out = ''[start]'' @ concat (map (\<lambda>t. '' '' @ t) toks) \<and>
                (length toks < length [0..<20] \<longrightarrow> toks \<noteq> [] \<and> last toks = ''[end]'')
            | Inl e \<Rightarrow>
                steps = [] @ map Inr toks @ [Inl e] \<and> length toks < length [0..<20] \<and>
                (toks \<noteq> [] \<longrightarrow> last toks \<noteq> ''[end]'') \<and>
                sample_token env ?tis ([0..<20] ! length toks)
                  (''[start]'' @ concat (map (\<lambda>t. '' '' @ t) toks)) = Inl e)"
    by (auto simp del: upt_Suc)
  have 1: "length steps \<le> 20"
    using fin len by (cases res) simp_all
  have 2: "\<forall>k<length toks. sample_token env ?tis k
          (''[start]'' @ concat (map (\<lambda>t. '' '' @ t) (take k toks))) = Inr (toks ! k)"
  proof (intro allI impI)
    fix k assume k: "k < length toks"
    then have "[0..<20] ! k = k" using len by simp
    then show "sample_token env ?tis k
          (''[start]'' @ concat (map (\<lambda>t. '' '' @ t) (take k toks))) = Inr (toks ! k)"
      using smp k by metis
  qed
  have 3: "\<forall>k. Suc k < length steps \<longrightarrow> steps ! k = Inr (toks ! k) \<and> toks ! k \<noteq> ''[end]''"
  proof (intro allI impI)
    fix k assume k: "Suc k < length steps"
    show "steps ! k = Inr (toks ! k) \<and> toks ! k \<noteq> ''[end]''"
    proof (cases res)
      case (Inr out)
      then have "steps = map Inr toks" using fin by simp
      then show ?thesis using k before by simp
    next
      case (Inl e)
      then have s: "steps = map Inr toks @ [Inl e]" and l: "toks \<noteq> [] \<longrightarrow> last toks \<noteq> ''[end]''"
        using fin by simp_all
      from s k have kt: "k < length toks" by simp
      then have a: "steps ! k = Inr (toks ! k)" using s by (simp add: nth_append)
      have "toks ! k \<noteq> ''[end]''"
      proof (cases "Suc k < length toks")
        case True
        then show ?thesis using before by blast
      next
        case False
        then have "k = length toks - 1" using kt by simp
        moreover have "toks \<noteq> []" using kt by auto
        ultimately have "toks ! k = last toks" by (simp add: last_conv_nth)
        then show ?thesis using l kt by auto
      qed
      then show ?thesis using a by simp
    qed
  qed
  have 4: "(case res of
        Inr out \<Rightarrow>
          steps = map Inr toks \<and> out = ''[start]'' @ concat (map (\<lambda>t. '' '' @ t) toks) \<and>
          (length toks < 20 \<longrightarrow> toks \<noteq> [] \<and> last toks = ''[end]'')
      | Inl e \<Rightarrow>
          steps = map Inr toks @ [Inl e] \<and>
          sample_token env ?tis (length toks)
            (''[start]'' @ concat (map (\<lambda>t. '' '' @ t) toks)) = Inl e)"
  proof (cases res)
    case (Inr out)
    then show ?thesis using fin by simp
  next
    case (Inl e)
    then have "length toks < 20" using fin by simp
    then have "[0..<20] ! length toks = length toks" by simp
    then show ?thesis using fin Inl by (simp del: upt_Suc)
  qed
  from d 1 2 3 4 show ?thesis by (intro exI[of _ res] exI[of _ steps] exI[of _ toks] conjI)
qed


theorem decode_sequence_terminates_within_bound_witness:
  "decode_sequence
     \<lparr>eng_vectorization = (\<lambda>texts. map (\<lambda>s. [1]) texts),
      spa_vectorization = (\<lambda>texts. map (\<lambda>s. [int (length s), 0]) texts),
      transformer = (\<lambda>source target.
         [replicate 20 (if target = [[7]] \<or> target = [[12]] then [0, 0, 0, 0, 1] else [0, 0, 0, 1, 0 :: int])]),
      spa_vocab = ['''', ''[UNK]'', ''[start]'', ''[end]'', ''hola'']\<rparr>
     ''she sings''
     = (Inr ''[start] hola hola [end]'', [Inr ''hola'', Inr ''hola'', Inr ''[end]'']) \<and>
   decode_sequence
     \<lparr>eng_vectorization = (\<lambda>texts. map (\<lambda>s. [1]) texts),
      spa_vectorization = (\<lambda>texts. map (\<lambda>s. [1, 0]) texts),
      transformer = (\<lambda>source target. [replicate 20 [0, 1, 0, 0, 0 :: int]]),
      spa_vocab = ['''', ''[UNK]'', ''[start]'', ''[end]'', ''hola'']\<rparr>
     ''she sings''
     = (Inr (''[start]'' @ concat (replicate 20 '' [UNK]'')), replicate 20 (Inr ''[UNK]'')) \<and>
   decode_sequence
     \<lparr>eng_vectorization = (\<lambda>texts. map (\<lambda>s. [1]) texts),
      spa_vectorization = (\<lambda>texts. map (\<lambda>s. [int (length s), 0]) texts),
      transformer = (\<lambda>source target.
         [replicate 20 (if target = [[7]] then [0, 0, 0, 0, 1] else [0, 0, 0, 0, 0, 1 :: int])]),
      spa_vocab = ['''', ''[UNK]'', ''[start]'', ''[end]'', ''hola'']\<rparr>
     ''she sings''
     = (Inl KeyError, [Inr ''hola'', Inl KeyError])"
proof -
  let ?env = "\<lparr>eng_vectorization = (\<lambda>texts. map (\<lambda>s. [1]) texts),
      spa_vectorization = (\<lambda>texts. map (\<lambda>s. [int (length s), 0]) texts),
      transformer = (\<lambda>source target.
         [replicate 20 (if target = [[7]] \<or> target = [[12]] then [0, 0, 0, 0, 1] else [0, 0, 0, 1, 0 :: int])]),
      spa_vocab = ['''', ''[UNK]'', ''[start]'', ''[end]'', ''hola'']\<rparr>"
  let ?env' = "\<lparr>eng_vectorization = (\<lambda>texts. map (\<lambda>s. [1]) texts),
      spa_vectorization = (\<lambda>texts. map (\<lambda>s. [1, 0]) texts),
      transformer = (\<lambda>source target. [replicate 20 [0, 1, 0, 0, 0 :: int]]),
      spa_vocab = ['''', ''[UNK]'', ''[start]'', ''[end]'', ''hola'']\<rparr>"
  let ?env'' = "\<lparr>eng_vectorization = (\<lambda>texts. map (\<lambda>s. [1]) texts),
      spa_vectorization = (\<lambda>texts. map (\<lambda>s. [int (length s), 0]) texts),
      transformer = (\<lambda>source target.
         [replicate 20 (if target = [[7]] then [0, 0, 0, 0, 1] else [0, 0, 0, 0, 0, 1 :: int])]),
      spa_vocab = ['''', ''[UNK]'', ''[start]'', ''[end]'', ''hola'']\<rparr>"
  have a: "decode_sequence ?env ''she sings''
     = (Inr ''[start] hola hola [end]'', [Inr ''hola'', Inr ''hola'', Inr ''[end]''])"
    by code_simp
  have b: "decode_sequence ?env' ''she sings''
     = (Inr (''[start]'' @ concat (replicate 20 '' [UNK]'')), replicate 20 (Inr ''[UNK]''))"
    by code_simp
  have c: "decode_sequence ?env'' ''she sings'' = (Inl KeyError, [Inr ''hola'', Inl KeyError])"
    by code_simp
  from decode_sequence_terminates_within_bound[of ?env "''she sings''"]
    decode_sequence_terminates_within_bound[of ?env' "''she sings''"]
    decode_sequence_terminates_within_bound[of ?env'' "''she sings''"] a b c
  show ?thesis by (intro conjI)
qed

subsection \<open>The character table\<close>

lemma foldl_upd_distinct:
  "distinct (map fst ps) \<Longrightarrow> foldl (\<lambda>m (k, v). m(k \<mapsto> v)) m0 ps = m0 ++ map_of ps"
proof (induction ps arbitrary: m0)
  case Nil
  then show ?case by simp
next
  case (Cons p ps)
  obtain k v where p: "p = (k, v)" by (cases p)
  have "k \<notin> dom (map_of ps)" using Cons.prems p by (simp add: dom_map_of_conv_image_fst)
  then have u: "m0(k \<mapsto> v) ++ map_of ps = (m0 ++ map_of ps)(k \<mapsto> v)" by (rule map_add_upd_left)
  have "foldl (\<lambda>m (k, v). m(k \<mapsto> v)) m0 (p # ps) = foldl (\<lambda>m (k, v). m(k \<mapsto> v)) (m0(k \<mapsto> v)) ps"
    unfolding p by simp
  also have "\<dots> = m0(k \<mapsto> v) ++ map_of ps" using Cons.prems by (intro Cons.IH) simp
  also have "\<dots> = m0 ++ (map_of ps)(k \<mapsto> v)" unfolding u by (rule map_add_upd[symmetric])
  also have "\<dots> = m0 ++ map_of (p # ps)" unfolding p by simp
  finally show ?case .
qed

lemma dict_of_distinct: "distinct (map fst ps) \<Longrightarrow> dict_of ps = map_of ps"
  by (simp add: dict_of_def foldl_upd_distinct)

lemma table_chars: "chars (CharacterTable_init cs) = sorted_list_of_set (set cs)"
  by (simp add: CharacterTable_init_def Let_def)

lemma table_char_indices:
  assumes "i < length (chars (CharacterTable_init cs))"
  shows "char_indices (CharacterTable_init cs) (chars (CharacterTable_init cs) ! i) = Some i"
proof -
  let ?chs = "sorted_list_of_set (set cs)"
  have i: "i < length ?chs" using assms by (simp only: table_chars)
  have z: "map (\<lambda>(i, c). (c, i)) (enumerate 0 ?chs) = zip ?chs [0..<length ?chs]"
    by (rule nth_equalityI) (simp_all add: nth_enumerate_eq)
  have d: "distinct (map fst (zip ?chs [0..<length ?chs]))" by simp
  have "char_indices (CharacterTable_init cs) = dict_of (map (\<lambda>(i, c). (c, i)) (enumerate 0 ?chs))"
    unfolding CharacterTable_init_def Let_def by simp
  also have "\<dots> = map_of (zip ?chs [0..<length ?chs])"
    unfolding z using d by (rule dict_of_distinct)
  finally have ci: "char_indices (CharacterTable_init cs) = map_of (zip ?chs [0..<length ?chs])" .
  have "map_of (zip ?chs [0..<length ?chs]) (?chs ! i) = Some ([0..<length ?chs] ! i)"
    using i by (intro map_of_zip_nth) simp_all
  then show ?thesis unfolding ci table_chars using i by simp
qed

lemma table_indices_char:
  assumes "i < length (chars (CharacterTable_init cs))"
  shows "indices_char (CharacterTable_init cs) i = Some (chars (CharacterTable_init cs) ! i)"
proof -
  let ?chs = "sorted_list_of_set (set cs)"
  have i: "i < length ?chs" using assms by (simp only: table_chars)
  have z: "map (\<lambda>(i, c). (i, c)) (enumerate 0 ?chs) = zip [0..<length ?chs] ?chs"
    by (rule nth_equalityI) (simp_all add: nth_enumerate_eq)
  have d: "distinct (map fst (zip [0..<length ?chs] ?chs))" by simp
  have "indices_char (CharacterTable_init cs) = dict_of (map (\<lambda>(i, c). (i, c)) (enumerate 0 ?chs))"
    unfolding CharacterTable_init_def Let_def by simp
  also have "\<dots> = map_of (zip [0..<length ?chs] ?chs)"
    unfolding z using d by (rule dict_of_distinct)
  finally have ic: "indices_char (CharacterTable_init cs) = map_of (zip [0..<length ?chs] ?chs)" .
  have "map_of (zip [0..<length ?chs] ?chs) ([0..<length ?chs] ! i) = Some (?chs ! i)"
    using i by (intro map_of_zip_nth) simp_all
  then show ?thesis unfolding ic table_chars using i by simp
qed

lemma one_hot_argmax:
  assumes "k < n"
  shows "np_argmax ((replicate n (0::real))[k := 1]) = Inr k"
proof -
  let ?xs = "(replicate n (0::real))[k := 1]"
  have ne: "?xs \<noteq> []" using assms by auto
  have "Max (set ?xs) = 1"
  proof (rule Max_eqI)
    show "finite (set ?xs)" by simp
    show "1 \<in> set ?xs" using assms by (simp add: set_update_memI)
    fix y assume "y \<in> set ?xs"
    then obtain i where "i < length ?xs" "y = ?xs ! i" by (auto simp: in_set_conv_nth)
    then show "y \<le> 1" using assms by (cases "i = k") simp_all
  qed
  moreover have "takeWhile (\<lambda>v. v \<noteq> 1) ?xs = take k ?xs"
    by (rule takeWhile_eq_take_P_nth) (use assms in simp_all)
  ultimately show ?thesis using ne assms by (simp add: np_argmax_def)
qed


lemma table_index_of_member:
  assumes "c \<in> set cs"
  shows "\<exists>i. i < length (chars (CharacterTable_init cs)) \<and>
           char_indices (CharacterTable_init cs) c = Some i \<and>
           indices_char (CharacterTable_init cs) i = Some c"
proof -
  have "c \<in> set (chars (CharacterTable_init cs))" using assms by (simp add: table_chars)
  then obtain i where i: "i < length (chars (CharacterTable_init cs))"
    "chars (CharacterTable_init cs) ! i = c"
    by (auto simp: in_set_conv_nth)
  then show ?thesis using table_char_indices[OF i(1)] table_indices_char[OF i(1)] by auto
qed

lemma encode_loop_rows:
  assumes "set C \<subseteq> set cs" and "k + length C \<le> nrows x" and "length (rows x) = nrows x"
      and "ncols x = length (chars (CharacterTable_init cs))"
  shows "\<exists>x'. encode_loop (CharacterTable_init cs) (enumerate k C) x = Inr x' \<and>
           nrows x' = nrows x \<and> ncols x' = ncols x \<and> length (rows x') = nrows x \<and>
           (\<forall>m<length C. rows x' ! (k + m) =
              (rows x ! (k + m))[the (char_indices (CharacterTable_init cs) (C ! m)) := 1]) \<and>
           (\<forall>j. j < k \<or> k + length C \<le> j \<longrightarrow> rows x' ! j = rows x ! j)"
  using assms
proof (induction C arbitrary: k x)
  case Nil
  then show ?case by simp
next
  case (Cons c C)
  let ?t = "CharacterTable_init cs"
  from Cons.prems(1) have "c \<in> set cs" by simp
  from table_index_of_member[OF this] obtain i where
    i: "i < length (chars ?t)" "char_indices ?t c = Some i" by blast
  let ?x1 = "x\<lparr>rows := (rows x)[k := (rows x ! k)[i := 1]]\<rparr>"
  have k: "k < nrows x" using Cons.prems(2) by simp
  have set1: "setitem x k i 1 = Inr ?x1" using k i(1) Cons.prems(4) by (simp add: setitem_def)
  have step: "encode_loop ?t (enumerate k (c # C)) x = encode_loop ?t (enumerate (Suc k) C) ?x1"
    using i(2) set1 by (simp add: getitem_def ebind_Inr)
  have "\<exists>x'. encode_loop ?t (enumerate (Suc k) C) ?x1 = Inr x' \<and>
           nrows x' = nrows ?x1 \<and> ncols x' = ncols ?x1 \<and> length (rows x') = nrows ?x1 \<and>
           (\<forall>m<length C. rows x' ! (Suc k + m) =
              (rows ?x1 ! (Suc k + m))[the (char_indices ?t (C ! m)) := 1]) \<and>
           (\<forall>j. j < Suc k \<or> Suc k + length C \<le> j \<longrightarrow> rows x' ! j = rows ?x1 ! j)"
    using Cons.prems by (intro Cons.IH) simp_all
  then obtain x' where x': "encode_loop ?t (enumerate (Suc k) C) ?x1 = Inr x'"
    "nrows x' = nrows x" "ncols x' = ncols x" "length (rows x') = nrows x"
    and upd: "\<forall>m<length C. rows x' ! (Suc k + m) =
              (rows ?x1 ! (Suc k + m))[the (char_indices ?t (C ! m)) := 1]"
    and same: "\<forall>j. j < Suc k \<or> Suc k + length C \<le> j \<longrightarrow> rows x' ! j = rows ?x1 ! j"
    by auto
  have a: "\<forall>m<length (c # C). rows x' ! (k + m) =
              (rows x ! (k + m))[the (char_indices ?t ((c # C) ! m)) := 1]"
  proof (intro allI impI)
    fix m assume m: "m < length (c # C)"
    show "rows x' ! (k + m) = (rows x ! (k + m))[the (char_indices ?t ((c # C) ! m)) := 1]"
    proof (cases m)
      case 0
      have "rows x' ! k = rows ?x1 ! k" using same by simp
      then show ?thesis using 0 k i(2) Cons.prems(3) by simp
    next
      case (Suc m')
      then have "m' < length C" using m by simp
      then have "rows x' ! (Suc k + m') = (rows ?x1 ! (Suc k + m'))[the (char_indices ?t (C ! m')) := 1]"
        using upd by blast
      then show ?thesis using Suc by simp
    qed
  qed
  have b: "\<forall>j. j < k \<or> k + length (c # C) \<le> j \<longrightarrow> rows x' ! j = rows x ! j"
  proof (intro allI impI)
    fix j assume j: "j < k \<or> k + length (c # C) \<le> j"
    then have "rows x' ! j = rows ?x1 ! j" using same by auto
    moreover have "j \<noteq> k" using j by auto
    ultimately show "rows x' ! j = rows x ! j" by simp
  qed
  from x' a b show ?case unfolding step by blast
qed

text \<open>
  Claim C10, amended. For a table built from at least one character and every string C
  whose characters all belong to the table, encoding C into \<open>len(C)\<close> rows succeeds and
  decoding the result with \<open>calc_argmax = True\<close> returns C.
\<close>

theorem character_table_roundtrip:
  assumes members: "set C \<subseteq> set cs" and nonempty: "cs \<noteq> []"
  shows "\<exists>x. encode (CharacterTable_init cs) C (length C) = Inr x \<and>
           decode (CharacterTable_init cs) x True = Inr C"
proof -
  let ?t = "CharacterTable_init cs"
  let ?n = "length (chars ?t)"
  let ?idx = "\<lambda>c. the (char_indices ?t c)"
  let ?x = "np_zeros (length C) ?n"
  have n: "?n \<noteq> 0" using nonempty by (simp add: table_chars)
  have "\<exists>x'. encode_loop ?t (enumerate 0 C) ?x = Inr x' \<and>
           nrows x' = nrows ?x \<and> ncols x' = ncols ?x \<and> length (rows x') = nrows ?x \<and>
           (\<forall>m<length C. rows x' ! (0 + m) = (rows ?x ! (0 + m))[?idx (C ! m) := 1]) \<and>
           (\<forall>j. j < 0 \<or> 0 + length C \<le> j \<longrightarrow> rows x' ! j = rows ?x ! j)"
    using members by (intro encode_loop_rows) (simp_all add: np_zeros_def)
  then obtain x' where enc: "encode_loop ?t (enumerate 0 C) ?x = Inr x'"
    and cols: "ncols x' = ?n" and len: "length (rows x') = length C"
    and upd: "\<forall>m<length C. rows x' ! m = (replicate ?n 0)[?idx (C ! m) := 1]"
    by (auto simp: np_zeros_def)
  have rows: "rows x' = map (\<lambda>c. (replicate ?n 0)[?idx c := 1]) C"
    by (rule nth_equalityI) (use len upd in simp_all)
  have idx: "?idx c < ?n \<and> indices_char ?t (?idx c) = Some c" if "c \<in> set C" for c
  proof -
    from that members have "c \<in> set cs" by auto
    from table_index_of_member[OF this] show ?thesis by auto
  qed
  have "collect (map (\<lambda>c. np_argmax ((replicate ?n (0::real))[?idx c := 1])) C) = Inr (map ?idx C)"
    by (rule collect_map_Inr) (use idx in \<open>simp add: one_hot_argmax\<close>)
  then have am: "argmax_last_axis x' = Inr (map ?idx C)"
    using n cols by (simp add: argmax_last_axis_def rows comp_def)
  have "collect (map (\<lambda>c. getitem (indices_char ?t) (?idx c)) C) = Inr (map (\<lambda>c. c) C)"
    by (rule collect_map_Inr) (use idx in \<open>simp add: getitem_def\<close>)
  then have "decode ?t x' True = Inr C"
    by (simp add: decode_def am ebind_Inr comp_def)
  moreover have "encode ?t C (length C) = Inr x'" using enc by (simp add: encode_def Let_def)
  ultimately show ?thesis by blast
qed

text \<open>
  Claim C10 as stated fails for the table built from no characters and the empty string,
  whose characters trivially all belong to the table: the encoding has shape (0, 0), and
  the argmax over its empty last axis is refused.
\<close>

theorem empty_character_table_roundtrip_fails:
  "encode (CharacterTable_init ('''' :: string)) '''' (length '''') = Inr (np_zeros 0 0) \<and>
   decode (CharacterTable_init ('''' :: string)) (np_zeros 0 0) True = Inl ValueError"
  by (simp add: encode_def decode_def CharacterTable_init_def np_zeros_def argmax_last_axis_def
      ebind_def)

theorem character_table_roundtrip_witness:
  "encode (CharacterTable_init ''0123456789+ '') ''12+7'' 4 =
     Inr \<lparr>nrows = 4, ncols = 12, rows =
       [[0, 0, 0, 1, 0, 0, 0, 0, 0, 0, 0, 0], [0, 0, 0, 0, 1, 0, 0, 0, 0, 0, 0, 0],
        [0, 1, 0, 0, 0, 0, 0, 0, 0, 0, 0, 0], [0, 0, 0, 0, 0, 0, 0, 0, 0, 1, 0, 0]]\<rparr> \<and>
   decode (CharacterTable_init ''0123456789+ '')
     \<lparr>nrows = 4, ncols = 12, rows =
       [[0, 0, 0, 1, 0, 0, 0, 0, 0, 0, 0, 0], [0, 0, 0, 0, 1, 0, 0, 0, 0, 0, 0, 0],
        [0, 1, 0, 0, 0, 0, 0, 0, 0, 0, 0, 0], [0, 0, 0, 0, 0, 0, 0, 0, 0, 1, 0, 0]]\<rparr> True
     = Inr ''12+7''"
proof -
  have h1: "set ''12+7'' \<subseteq> set ''0123456789+ ''" by simp
  have h2: "''0123456789+ '' \<noteq> []" by simp
  have a: "encode (CharacterTable_init ''0123456789+ '') ''12+7'' 4 =
     Inr \<lparr>nrows = 4, ncols = 12, rows =
       [[0, 0, 0, 1, 0, 0, 0, 0, 0, 0, 0, 0], [0, 0, 0, 0, 1, 0, 0, 0, 0, 0, 0, 0],
        [0, 1, 0, 0, 0, 0, 0, 0, 0, 0, 0, 0], [0, 0, 0, 0, 0, 0, 0, 0, 0, 1, 0, 0]]\<rparr>"
    by code_simp
  have l: "length ''12+7'' = 4" by simp
  from character_table_roundtrip[OF h1 h2] obtain x where
    x: "encode (CharacterTable_init ''0123456789+ '') ''12+7'' (length ''12+7'') = Inr x"
       "decode (CharacterTable_init ''0123456789+ '') x True = Inr ''12+7''"
    by blast
  from x(1) a have "x = \<lparr>nrows = 4, ncols = 12, rows =
       [[0, 0, 0, 1, 0, 0, 0, 0, 0, 0, 0, 0], [0, 0, 0, 0, 1, 0, 0, 0, 0, 0, 0, 0],
        [0, 1, 0, 0, 0, 0, 0, 0, 0, 0, 0, 0], [0, 0, 0, 0, 0, 0, 0, 0, 0, 1, 0, 0]]\<rparr>"
    unfolding l by simp
  with x(2) a show ?thesis by (intro conjI) simp_all
qed

end
